theory Spec2Isabelle
  imports Main "HOL-Library.Word" "HOL-Library.Product_Lexorder"
begin

section \<open>The C++ type float: IEEE 754 binary32\<close>

text \<open>
  A \<open>float\<close> is its bit pattern, split into the three fields of binary32: the sign bit,
  the 8 bits of the biased exponent and the 23 bits of the fraction. Every one of the
  \<open>2 ^ 32\<close> patterns is a value of the type, so reading any four bytes of a point as a
  \<open>float\<close> (the \<open>reinterpret_cast\<close> of the source) is total.
\<close>

datatype float = Float (sign: bool) (expo: "8 word") (frac: "23 word")

definition isnan :: "float \<Rightarrow> bool" where
  "isnan x = (expo x = 255 \<and> frac x \<noteq> 0)"

definition isinf :: "float \<Rightarrow> bool" where
  "isinf x = (expo x = 255 \<and> frac x = 0)"

definition is_zero :: "float \<Rightarrow> bool" where
  "is_zero x = (expo x = 0 \<and> frac x = 0)"

text \<open>\<open>std::isfinite\<close>: neither infinite nor NaN, that is, the exponent field is not all ones.\<close>

definition isfinite :: "float \<Rightarrow> bool" where
  "isfinite x = (expo x \<noteq> 255)"

text \<open>
  A finite \<open>x\<close> has the value \<open>(-1) ^ sign x * significand x * 2 ^ exponent2 x\<close>;
  a zero exponent field marks a subnormal number (or zero), without the hidden bit.
\<close>

definition significand :: "float \<Rightarrow> nat" where
  "significand x = (if expo x = 0 then unat (frac x) else 2 ^ 23 + unat (frac x))"

definition exponent2 :: "float \<Rightarrow> int" where
  "exponent2 x = (if expo x = 0 then - 149 else int (unat (expo x)) - 150)"

text \<open>The number of binary digits of a natural number.\<close>

fun bit_length :: "nat \<Rightarrow> nat" where
  "bit_length n = (if n = 0 then 0 else Suc (bit_length (n div 2)))"

declare bit_length.simps [simp del]

text \<open>\<open>m / 2 ^ d\<close>, rounded to the nearest integer, ties to the even one.\<close>

definition round_shift :: "nat \<Rightarrow> nat \<Rightarrow> nat" where
  "round_shift m d =
     (let q = m div 2 ^ d; r = m mod 2 ^ d
      in if 2 ^ d < 2 * r \<or> (2 * r = 2 ^ d \<and> odd q) then q + 1 else q)"

text \<open>
  Rounding of the exact value \<open>(-1) ^ s * m * 2 ^ e\<close> to binary32, in the default rounding
  mode (to nearest, ties to even): the unit in the last place of the result is \<open>2 ^ e'\<close>,
  a result beyond the largest finite number is an infinity.
\<close>

definition fround :: "bool \<Rightarrow> nat \<Rightarrow> int \<Rightarrow> float" where
  "fround s m e =
     (if m = 0 then Float s 0 0
      else
        let e' = max (- 149) (e + int (bit_length m) - 24);
            m' = (if e' \<le> e then m * 2 ^ nat (e - e') else round_shift m (nat (e' - e)));
            e'' = (if m' = 2 ^ 24 then e' + 1 else e');
            m'' = (if m' = 2 ^ 24 then 2 ^ 23 else m')
        in if 104 < e'' then Float s 255 0
           else if m'' < 2 ^ 23 then Float s 0 (of_nat m'')
           else Float s (of_int (e'' + 150)) (of_nat (m'' - 2 ^ 23)))"

text \<open>
  The NaN an invalid operation produces. Which NaN a processor returns (its sign and
  payload) differs between processors; nothing below depends on more than its being a NaN.
\<close>

definition qNaN :: float where
  "qNaN = Float False 255 (2 ^ 22)"

text \<open>The operator \<open>*\<close> on two floats.\<close>

definition fmul :: "float \<Rightarrow> float \<Rightarrow> float" where
  "fmul x y =
     (if isnan x \<or> isnan y then qNaN
      else if isinf x \<or> isinf y then
        (if is_zero x \<or> is_zero y then qNaN else Float (sign x \<noteq> sign y) 255 0)
      else fround (sign x \<noteq> sign y) (significand x * significand y) (exponent2 x + exponent2 y))"

text \<open>The literal \<open>1.0f\<close>.\<close>

definition float_one :: float where
  "float_one = Float False 127 0"

text \<open>The literal \<open>0.0f\<close>.\<close>

definition float_zero :: float where
  "float_zero = Float False 0 0"







section \<open>PointRepresentation\<close>

text \<open>
  What an operation of the class can do other than return: \<open>new float[n]\<close> throws
  \<open>std::bad_array_new_length\<close> for a negative \<open>n\<close>, \<open>std::vector::resize\<close> throws
  \<open>std::length_error\<close> for a size beyond \<open>max_size()\<close>, and a read or write outside an
  array (or a read of an array element that was never written) is undefined behaviour.
\<close>

datatype error = BadArrayNewLength | LengthError | UndefinedBehaviour

text \<open>
  A point of type \<open>PointT\<close> is the array of floats that
  \<open>reinterpret_cast<const float*>(&p)\<close> reads: \<open>sizeof(PointT) div sizeof(float)\<close> floats.
\<close>

type_synonym point = "float list"

definition sizeof_float :: nat where
  "sizeof_float = 4"

text \<open>
  The fields of the class, and its one pure virtual method. \<open>copyToFloatArray_v\<close> is the
  method of the dynamic type: from \<open>nr_dimensions_\<close> and the point, the floats it writes to
  \<open>out[0]\<close>, \<open>out[1]\<close>, ... (or the undefined behaviour it runs into).
\<close>

record PointRepresentation =
  nr_dimensions :: int
  alpha :: "float list"
  trivial :: bool
  copyToFloatArray_v :: "int \<Rightarrow> point \<Rightarrow> error + float list"

text \<open>
  \<open>float* temp = new float[nr_dimensions_]; copyToFloatArray(p, temp);\<close>: the scratch
  array after the call. Writing more than \<open>nr_dimensions_\<close> floats overruns the array;
  entries the method did not write stay indeterminate and are not part of the result.
\<close>

definition copy_to_scratch :: "PointRepresentation \<Rightarrow> point \<Rightarrow> error + float list" where
  "copy_to_scratch rep p =
     (if nr_dimensions rep < 0 then Inl BadArrayNewLength
      else case copyToFloatArray_v rep (nr_dimensions rep) p of
             Inl e \<Rightarrow> Inl e
           | Inr temp \<Rightarrow>
               if nr_dimensions rep < int (length temp) then Inl UndefinedBehaviour
               else Inr temp)"

definition isTrivial :: "PointRepresentation \<Rightarrow> bool" where
  "isTrivial rep = (trivial rep \<and> alpha rep = [])"

text \<open>
  The loop of \<open>isValid\<close>, the same in both branches:
  \<open>for (int i = 0; i < nr_dimensions_; ++i) if (!std::isfinite(temp[i])) { is_valid = false; break; }\<close>
\<close>

function isValid_loop :: "float list \<Rightarrow> int \<Rightarrow> int \<Rightarrow> error + bool" where
  "isValid_loop temp n i =
     (if i < n then
        (if i < 0 \<or> int (length temp) \<le> i then Inl UndefinedBehaviour
         else if \<not> isfinite (temp ! nat i) then Inr False
         else isValid_loop temp n (i + 1))
      else Inr True)"
  by pat_completeness auto
termination
  by (relation "measure (\<lambda>(temp, n, i). nat (n - i))") auto

declare isValid_loop.simps [simp del]

text \<open>The branch of \<open>isValid\<close> for \<open>trivial_\<close>: the point's memory is read as floats.\<close>

definition isValid_fast :: "PointRepresentation \<Rightarrow> point \<Rightarrow> error + bool" where
  "isValid_fast rep p = isValid_loop p (nr_dimensions rep) 0"

text \<open>The other branch: the point is converted into a scratch array, which is checked.\<close>

definition isValid_full :: "PointRepresentation \<Rightarrow> point \<Rightarrow> error + bool" where
  "isValid_full rep p =
     (case copy_to_scratch rep p of
        Inl e \<Rightarrow> Inl e
      | Inr temp \<Rightarrow> isValid_loop temp (nr_dimensions rep) 0)"

definition isValid :: "PointRepresentation \<Rightarrow> point \<Rightarrow> error + bool" where
  "isValid rep p = (if trivial rep then isValid_fast rep p else isValid_full rep p)"

text \<open>
  The \<open>for\<close> statements of \<open>vectorize\<close>, one for each branch:
  \<open>for (int i = 0; i < nr_dimensions_; ++i) out[i] = temp[i];\<close> and
  \<open>for (int i = 0; i < nr_dimensions_; ++i) out[i] = temp[i] * alpha_[i];\<close>
\<close>

function copy_loop :: "float list \<Rightarrow> int \<Rightarrow> int \<Rightarrow> float list \<Rightarrow> error + float list" where
  "copy_loop temp n i out =
     (if i < n then
        (if i < 0 \<or> int (length temp) \<le> i \<or> int (length out) \<le> i then Inl UndefinedBehaviour
         else copy_loop temp n (i + 1) (out[nat i := temp ! nat i]))
      else Inr out)"
  by pat_completeness auto
termination
  by (relation "measure (\<lambda>(temp, n, i, out). nat (n - i))") auto

declare copy_loop.simps [simp del]

function rescale_loop ::
  "float list \<Rightarrow> float list \<Rightarrow> int \<Rightarrow> int \<Rightarrow> float list \<Rightarrow> error + float list" where
  "rescale_loop temp al n i out =
     (if i < n then
        (if i < 0 \<or> int (length temp) \<le> i \<or> int (length al) \<le> i \<or> int (length out) \<le> i
         then Inl UndefinedBehaviour
         else rescale_loop temp al n (i + 1) (out[nat i := fmul (temp ! nat i) (al ! nat i)]))
      else Inr out)"
  by pat_completeness auto
termination
  by (relation "measure (\<lambda>(temp, al, n, i, out). nat (n - i))") auto

declare rescale_loop.simps [simp del]

text \<open>\<open>vectorize(p, out)\<close>: the output buffer after the call.\<close>

definition vectorize :: "PointRepresentation \<Rightarrow> point \<Rightarrow> float list \<Rightarrow> error + float list" where
  "vectorize rep p out =
     (case copy_to_scratch rep p of
        Inl e \<Rightarrow> Inl e
      | Inr temp \<Rightarrow>
          if alpha rep = [] then copy_loop temp (nr_dimensions rep) 0 out
          else rescale_loop temp (alpha rep) (nr_dimensions rep) 0 out)"

text \<open>
  \<open>setRescaleValues(rescale_array)\<close>: \<open>alpha_.resize(nr_dimensions_)\<close> converts the
  \<open>int\<close> to \<open>size_t\<close>, so a negative count asks for more than \<open>max_size()\<close> elements;
  \<open>std::copy\<close> then reads \<open>nr_dimensions_\<close> floats of the caller's array.
\<close>

definition setRescaleValues ::
  "PointRepresentation \<Rightarrow> float list \<Rightarrow> error + PointRepresentation" where
  "setRescaleValues rep rescale_array =
     (if nr_dimensions rep < 0 then Inl LengthError
      else if int (length rescale_array) < nr_dimensions rep then Inl UndefinedBehaviour
      else Inr (rep\<lparr>alpha := take (nat (nr_dimensions rep)) rescale_array\<rparr>))"

definition getNumberOfDimensions :: "PointRepresentation \<Rightarrow> int" where
  "getNumberOfDimensions rep = nr_dimensions rep"

section \<open>DefaultPointRepresentation\<close>

text \<open>
  \<open>copyToFloatArray\<close> of the default representation:
  \<open>std::copy(ptr, ptr + nr_dimensions_, out)\<close> with \<open>ptr\<close> the point read as floats.
\<close>

definition Default_copyToFloatArray :: "int \<Rightarrow> point \<Rightarrow> error + float list" where
  "Default_copyToFloatArray n p =
     (if n < 0 \<or> int (length p) < n then Inl UndefinedBehaviour else Inr (take (nat n) p))"

text \<open>The conversion of a \<open>size_t\<close> to \<open>int\<close>: the value modulo \<open>2 ^ 32\<close>, read as signed.\<close>

definition size_to_int :: "nat \<Rightarrow> int" where
  "size_to_int k = sint (word_of_nat k :: 32 word)"

text \<open>
  The constructor, for a point type of \<open>sizeof_PointDefault\<close> bytes; the members not
  assigned keep the initial values of the base class (\<open>alpha_\<close> is empty).
\<close>

definition DefaultPointRepresentation :: "nat \<Rightarrow> PointRepresentation" where
  "DefaultPointRepresentation sizeof_PointDefault =
     (let nr = size_to_int (sizeof_PointDefault div sizeof_float)
      in \<lparr>nr_dimensions = (if 3 < nr then 3 else nr),
          alpha = [],
          trivial = True,
          copyToFloatArray_v = Default_copyToFloatArray\<rparr>)"

section \<open>Notions the properties are stated with\<close>

text \<open>
  The floats \<open>isValid\<close> inspects: the point read as floats when \<open>trivial_\<close> is set, the
  scratch array filled by \<open>copyToFloatArray\<close> otherwise.
\<close>

definition produced_floats :: "PointRepresentation \<Rightarrow> point \<Rightarrow> error + float list" where
  "produced_floats rep p = (if trivial rep then Inr p else copy_to_scratch rep p)"

text \<open>
  What the class comment asks of a trivial representation: the conversion gives the float
  array that reading the point as \<open>nr_dimensions_\<close> floats gives.
\<close>

definition converts_by_reinterpretation :: "PointRepresentation \<Rightarrow> point \<Rightarrow> bool" where
  "converts_by_reinterpretation rep p =
     (0 \<le> nr_dimensions rep \<and> nr_dimensions rep \<le> int (length p) \<and>
      copyToFloatArray_v rep (nr_dimensions rep) p = Inr (take (nat (nr_dimensions rep)) p))"

text \<open>The invariant of the rescale vector: not set, or one weight for each dimension.\<close>

definition alpha_inv :: "PointRepresentation \<Rightarrow> bool" where
  "alpha_inv rep = (alpha rep = [] \<or> int (length (alpha rep)) = nr_dimensions rep)"

text \<open>
  The public operations of the class as the steps of a state machine on the object. The
  \<open>const\<close> methods leave the object as it is; a sequence of calls stops at the first
  exception or undefined behaviour.
\<close>

datatype operation =
    SetRescaleValues "float list"
  | Vectorize point "float list"
  | IsValid point
  | IsTrivial
  | GetNumberOfDimensions

fun perform :: "PointRepresentation \<Rightarrow> operation \<Rightarrow> error + PointRepresentation" where
  "perform rep (SetRescaleValues rescale_array) = setRescaleValues rep rescale_array"
| "perform rep (Vectorize p out) =
     (case vectorize rep p out of Inl e \<Rightarrow> Inl e | Inr out' \<Rightarrow> Inr rep)"
| "perform rep (IsValid p) =
     (case isValid rep p of Inl e \<Rightarrow> Inl e | Inr b \<Rightarrow> Inr rep)"
| "perform rep IsTrivial = Inr rep"
| "perform rep GetNumberOfDimensions = Inr rep"

fun perform_all :: "PointRepresentation \<Rightarrow> operation list \<Rightarrow> error + PointRepresentation" where
  "perform_all rep [] = Inr rep"
| "perform_all rep (x # xs) =
     (case perform rep x of Inl e \<Rightarrow> Inl e | Inr rep' \<Rightarrow> perform_all rep' xs)"

text \<open>
  Two floats that a comparison of their values cannot tell apart from a copy: the same bit
  pattern, or NaN on both sides.
\<close>

definition same_float :: "float \<Rightarrow> float \<Rightarrow> bool" where
  "same_float x y = (x = y \<or> (isnan x \<and> isnan y))"

section \<open>The spatial index\<close>



text \<open>
  Modelled from the spec: the external NearestNeighborEngine built by
  \<open>build(flatVectorData, numPoints, dimensionality)\<close>: the flat array of feature vectors,
  their number and their length.
\<close>

record NearestNeighborEngine =
  flatVectorData :: "float list"
  numPoints :: nat
  dimensionality :: nat



text \<open>
  Modelled from the spec: the errors of the spatial index (section 7 of the spec), and the
  failure of a conversion by the bound representation.
\<close>

datatype index_error =
    InvalidArgumentError
  | InvalidInputError
  | NotBuiltError
  | ConversionError error

text \<open>
  Modelled from the spec: the two states of SpatialIndex (class \<open>KdTreeFLANN\<close> of
  \<open>kdtree/kdtree_flann.h\<close>, which \<open>main.cpp\<close> includes and which is not among the
  sources). A built index holds the bound cloud, the bound representation and the engine.
\<close>

datatype SpatialIndex =
    Unbuilt
  | Built (input: "point list") (point_representation: PointRepresentation)
      (engine: NearestNeighborEngine)

text \<open>
  Modelled from the spec: the conversion of one point by \<open>vectorize\<close> into a fresh vector
  of \<open>nr_dimensions\<close> floats.
\<close>

definition featureVectorOf :: "PointRepresentation \<Rightarrow> point \<Rightarrow> index_error + float list" where
  "featureVectorOf rep p =
     (case vectorize rep p (replicate (nat (nr_dimensions rep)) float_zero) of
        Inl e \<Rightarrow> Inl (ConversionError e)
      | Inr v \<Rightarrow> Inr v)"

text \<open>
  Modelled from the spec: the build of the dataset, every point in insertion order
  converted and appended to the flat dataset.
\<close>

fun buildDataset :: "PointRepresentation \<Rightarrow> point list \<Rightarrow> index_error + float list" where
  "buildDataset rep [] = Inr []"
| "buildDataset rep (p # ps) =
     (case featureVectorOf rep p of
        Inl e \<Rightarrow> Inl e
      | Inr v \<Rightarrow>
          (case buildDataset rep ps of
             Inl e \<Rightarrow> Inl e
           | Inr vs \<Rightarrow> Inr (v @ vs)))"

text \<open>
  Modelled from the spec: \<open>setInputCloud(cloud, representation)\<close>, which fails with
  \<open>InvalidInputError\<close> if the cloud is empty or if \<open>nr_dimensions\<close> is 0, and otherwise
  builds the dataset and hands it, with the number of points and the dimensionality, to the
  engine.
\<close>

definition setInputCloud :: "point list \<Rightarrow> PointRepresentation \<Rightarrow> index_error + SpatialIndex" where
  "setInputCloud cloud rep =
     (if cloud = [] \<or> nr_dimensions rep = 0 then Inl InvalidInputError
      else case buildDataset rep cloud of
             Inl e \<Rightarrow> Inl e
           | Inr vs \<Rightarrow>
               Inr (Built cloud rep
                 \<lparr>flatVectorData = vs, numPoints = length cloud,
                  dimensionality = nat (nr_dimensions rep)\<rparr>))"


section \<open>Notions of the proofs about the order of floats\<close>



section \<open>The default representation: its fields\<close>

lemma size_to_int_mod: "size_to_int k = (int k + 2 ^ 31) mod 2 ^ 32 - 2 ^ 31"
proof -
  have "(word_of_nat k :: 32 word) = word_of_int (int k)" by simp
  then show ?thesis
    unfolding size_to_int_def by (simp only: int_word_sint) simp
qed

lemma size_to_int_small: "k < 2 ^ 31 \<Longrightarrow> size_to_int k = int k"
  by (simp add: size_to_int_mod)

lemma Default_fields:
  "trivial (DefaultPointRepresentation s) = True"
  "alpha (DefaultPointRepresentation s) = []"
  "copyToFloatArray_v (DefaultPointRepresentation s) = Default_copyToFloatArray"
  "nr_dimensions (DefaultPointRepresentation s) = min 3 (size_to_int (s div sizeof_float))"
  by (simp_all add: DefaultPointRepresentation_def Let_def min_def)

lemma Default_converts_by_reinterpretation:
  assumes "s div sizeof_float < 2 ^ 31" and "length p = s div sizeof_float"
  shows "converts_by_reinterpretation (DefaultPointRepresentation s) p"
  using assms
  by (auto simp: converts_by_reinterpretation_def Default_fields size_to_int_small
        Default_copyToFloatArray_def)

lemma Default_12 [simp]:
  "nr_dimensions (DefaultPointRepresentation 12) = 3"
  by (simp add: Default_fields sizeof_float_def size_to_int_def)

section \<open>The validity check\<close>

lemma all_from_step:
  "P (i::int) \<Longrightarrow>
   (\<forall>j. i + 1 \<le> j \<and> j < n \<longrightarrow> P j) = (\<forall>j. i \<le> j \<and> j < n \<longrightarrow> P j)"
  by (metis add1_zle_eq order_le_less)

lemma isValid_loop_finite:
  "0 \<le> i \<Longrightarrow> n \<le> int (length temp) \<Longrightarrow>
   isValid_loop temp n i = Inr (\<forall>j. i \<le> j \<and> j < n \<longrightarrow> isfinite (temp ! nat j))"
proof (induction temp n i rule: isValid_loop.induct)
  case (1 temp n i)
  show ?case
  proof (cases "i < n")
    case False
    then show ?thesis
      by (subst isValid_loop.simps) auto
  next
    case True
    show ?thesis
    proof (cases "isfinite (temp ! nat i)")
      case False
      with True "1.prems" show ?thesis
        by (subst isValid_loop.simps) auto
    next
      case fin: True
      have step: "isValid_loop temp n i = isValid_loop temp n (i + 1)"
        using True fin "1.prems" by (subst isValid_loop.simps) auto
      have "isValid_loop temp n (i + 1)
            = Inr (\<forall>j. i + 1 \<le> j \<and> j < n \<longrightarrow> isfinite (temp ! nat j))"
        using "1.IH" True fin "1.prems" by auto
      then show ?thesis
        using step all_from_step [of "\<lambda>j. isfinite (temp ! nat j)" i n, OF fin] by simp
    qed
  qed
qed

lemma isValid_loop_0:
  assumes "n \<le> int (length temp)"
  shows "isValid_loop temp n 0 = Inr (\<forall>i<nat n. isfinite (temp ! i))"
proof -
  have "(\<forall>j. 0 \<le> j \<and> j < n \<longrightarrow> isfinite (temp ! nat j)) = (\<forall>i<nat n. isfinite (temp ! i))"
  proof
    assume h: "\<forall>j. 0 \<le> j \<and> j < n \<longrightarrow> isfinite (temp ! nat j)"
    show "\<forall>i<nat n. isfinite (temp ! i)"
    proof (intro allI impI)
      fix i assume "i < nat n"
      then have "0 \<le> int i \<and> int i < n" by auto
      with h have "isfinite (temp ! nat (int i))" by blast
      then show "isfinite (temp ! i)" by simp
    qed
  next
    assume h: "\<forall>i<nat n. isfinite (temp ! i)"
    show "\<forall>j. 0 \<le> j \<and> j < n \<longrightarrow> isfinite (temp ! nat j)"
    proof (intro allI impI)
      fix j :: int assume "0 \<le> j \<and> j < n"
      then have "nat j < nat n" by auto
      with h show "isfinite (temp ! nat j)" by blast
    qed
  qed
  with isValid_loop_finite [of 0 n temp] assms show ?thesis by simp
qed




lemma copy_to_scratch_reinterpretation:
  assumes "converts_by_reinterpretation rep p"
  shows "copy_to_scratch rep p = Inr (take (nat (nr_dimensions rep)) p)"
  using assms by (auto simp: converts_by_reinterpretation_def copy_to_scratch_def)

text \<open>
  Claim C1. For a representation that reports itself trivial (the flag is set and no
  rescale weights are configured) and whose conversion is the reinterpretation the flag
  stands for, the fast path of \<open>isValid\<close> and the path through the full conversion return
  the same boolean, whatever floats the point holds (NaN and infinities included).
\<close>

theorem isValid_fast_eq_full:
  assumes "isTrivial rep" and "converts_by_reinterpretation rep p"
  shows "\<exists>b. isValid_fast rep p = Inr b \<and> isValid_full rep p = Inr b"
proof -
  let ?n = "nr_dimensions rep"
  from assms(2) have n: "0 \<le> ?n" "?n \<le> int (length p)"
    by (simp_all add: converts_by_reinterpretation_def)
  have fast: "isValid_fast rep p = Inr (\<forall>i<nat ?n. isfinite (p ! i))"
    unfolding isValid_fast_def using isValid_loop_0 [OF n(2)] .
  have "?n \<le> int (length (take (nat ?n) p))"
    using n by simp
  then have "isValid_loop (take (nat ?n) p) ?n 0
             = Inr (\<forall>i<nat ?n. isfinite (take (nat ?n) p ! i))"
    by (rule isValid_loop_0)
  then have full: "isValid_full rep p = Inr (\<forall>i<nat ?n. isfinite (p ! i))"
    by (simp add: isValid_full_def copy_to_scratch_reinterpretation [OF assms(2)])
  from fast full show ?thesis by simp
qed

theorem isValid_fast_eq_full_witness:
  "isTrivial (DefaultPointRepresentation 12) \<and>
   converts_by_reinterpretation (DefaultPointRepresentation 12) [float_one, Float True 255 5, float_one] \<and>
   isValid_fast (DefaultPointRepresentation 12) [float_one, Float True 255 5, float_one] = Inr False \<and>
   isValid_full (DefaultPointRepresentation 12) [float_one, Float True 255 5, float_one] = Inr False"
proof -
  let ?rep = "DefaultPointRepresentation 12"
  let ?p = "[float_one, Float True 255 5, float_one]"
  have t: "isTrivial ?rep"
    by (simp add: isTrivial_def Default_fields)
  have c: "converts_by_reinterpretation ?rep ?p"
    by (rule Default_converts_by_reinterpretation) (simp_all add: sizeof_float_def)
  have "isValid_fast ?rep ?p = Inr False"
    by (simp add: isValid_fast_def isValid_loop.simps isfinite_def float_one_def)
  with isValid_fast_eq_full [OF t c] t c show ?thesis by auto
qed

section \<open>Vectorization\<close>

lemma copy_loop_result:
  "0 \<le> i \<Longrightarrow> n \<le> int (length temp) \<Longrightarrow> n \<le> int (length out) \<Longrightarrow>
   \<exists>out'. copy_loop temp n i out = Inr out' \<and> length out' = length out \<and>
     (\<forall>j<length out. out' ! j = (if nat i \<le> j \<and> int j < n then temp ! j else out ! j))"
proof (induction temp n i out rule: copy_loop.induct)
  case (1 temp n i out)
  show ?case
  proof (cases "i < n")
    case False
    then have "copy_loop temp n i out = Inr out"
      by (subst copy_loop.simps) simp
    moreover have "\<not> (nat i \<le> j \<and> int j < n)" for j
      using False "1.prems"(1) by auto
    ultimately show ?thesis by auto
  next
    case True
    let ?out = "out[nat i := temp ! nat i]"
    have step: "copy_loop temp n i out = copy_loop temp n (i + 1) ?out"
      using True "1.prems" by (subst copy_loop.simps) auto
    have "\<exists>out'. copy_loop temp n (i + 1) ?out = Inr out' \<and> length out' = length ?out \<and>
       (\<forall>j<length ?out. out' ! j = (if nat (i + 1) \<le> j \<and> int j < n then temp ! j else ?out ! j))"
      using "1.IH" True "1.prems" by auto
    then obtain out' where o: "copy_loop temp n (i + 1) ?out = Inr out'"
      "length out' = length out"
      "\<forall>j<length out. out' ! j = (if nat (i + 1) \<le> j \<and> int j < n then temp ! j else ?out ! j)"
      by auto
    have "out' ! j = (if nat i \<le> j \<and> int j < n then temp ! j else out ! j)"
      if j: "j < length out" for j
    proof (cases "j = nat i")
      case True
      with o(3) j \<open>i < n\<close> "1.prems"(1) show ?thesis by auto
    next
      case False
      with o(3) j "1.prems"(1) show ?thesis by (auto simp: nat_add_distrib)
    qed
    with o step show ?thesis by simp
  qed
qed

lemma rescale_loop_result:
  "0 \<le> i \<Longrightarrow> n \<le> int (length temp) \<Longrightarrow> n \<le> int (length al) \<Longrightarrow> n \<le> int (length out) \<Longrightarrow>
   \<exists>out'. rescale_loop temp al n i out = Inr out' \<and> length out' = length out \<and>
     (\<forall>j<length out. out' ! j =
        (if nat i \<le> j \<and> int j < n then fmul (temp ! j) (al ! j) else out ! j))"
proof (induction temp al n i out rule: rescale_loop.induct)
  case (1 temp al n i out)
  show ?case
  proof (cases "i < n")
    case False
    then have "rescale_loop temp al n i out = Inr out"
      by (subst rescale_loop.simps) simp
    moreover have "\<not> (nat i \<le> j \<and> int j < n)" for j
      using False "1.prems"(1) by auto
    ultimately show ?thesis by auto
  next
    case True
    let ?out = "out[nat i := fmul (temp ! nat i) (al ! nat i)]"
    have step: "rescale_loop temp al n i out = rescale_loop temp al n (i + 1) ?out"
      using True "1.prems" by (subst rescale_loop.simps) auto
    have "\<exists>out'. rescale_loop temp al n (i + 1) ?out = Inr out' \<and> length out' = length ?out \<and>
       (\<forall>j<length ?out. out' ! j =
          (if nat (i + 1) \<le> j \<and> int j < n then fmul (temp ! j) (al ! j) else ?out ! j))"
      using "1.IH" True "1.prems" by auto
    then obtain out' where o: "rescale_loop temp al n (i + 1) ?out = Inr out'"
      "length out' = length out"
      "\<forall>j<length out. out' ! j =
          (if nat (i + 1) \<le> j \<and> int j < n then fmul (temp ! j) (al ! j) else ?out ! j)"
      by auto
    have "out' ! j = (if nat i \<le> j \<and> int j < n then fmul (temp ! j) (al ! j) else out ! j)"
      if j: "j < length out" for j
    proof (cases "j = nat i")
      case True
      with o(3) j \<open>i < n\<close> "1.prems"(1) show ?thesis by auto
    next
      case False
      with o(3) j "1.prems"(1) show ?thesis by (auto simp: nat_add_distrib)
    qed
    with o step show ?thesis by simp
  qed
qed

lemma vectorize_unweighted:
  assumes "copy_to_scratch rep p = Inr temp"
    and "int (length temp) = nr_dimensions rep"
    and "nr_dimensions rep \<le> int (length out)"
    and "alpha rep = []"
  shows "\<exists>out'. vectorize rep p out = Inr out' \<and> length out' = length out \<and>
           (\<forall>i<nat (nr_dimensions rep). out' ! i = temp ! i) \<and>
           (\<forall>i. nat (nr_dimensions rep) \<le> i \<and> i < length out \<longrightarrow> out' ! i = out ! i)"
proof -
  from copy_loop_result [of 0 "nr_dimensions rep" temp out] assms(2,3)
  obtain out' where o: "copy_loop temp (nr_dimensions rep) 0 out = Inr out'"
    "length out' = length out"
    "\<forall>j<length out. out' ! j = (if int j < nr_dimensions rep then temp ! j else out ! j)"
    by auto
  have "vectorize rep p out = Inr out'"
    using assms(1,4) o(1) by (simp add: vectorize_def)
  moreover have "out' ! i = temp ! i" if "i < nat (nr_dimensions rep)" for i
    using that o(3) assms(3) by auto
  moreover have "out' ! i = out ! i" if "nat (nr_dimensions rep) \<le> i" "i < length out" for i
    using that o(3) by auto
  ultimately show ?thesis using o(2) by auto
qed

lemma vectorize_weighted:
  assumes "copy_to_scratch rep p = Inr temp"
    and "int (length temp) = nr_dimensions rep"
    and "nr_dimensions rep \<le> int (length out)"
    and "alpha rep \<noteq> []"
    and "int (length (alpha rep)) = nr_dimensions rep"
  shows "\<exists>out'. vectorize rep p out = Inr out' \<and> length out' = length out \<and>
           (\<forall>i<nat (nr_dimensions rep). out' ! i = fmul (temp ! i) (alpha rep ! i)) \<and>
           (\<forall>i. nat (nr_dimensions rep) \<le> i \<and> i < length out \<longrightarrow> out' ! i = out ! i)"
proof -
  from rescale_loop_result [of 0 "nr_dimensions rep" temp "alpha rep" out] assms(2,3,5)
  obtain out' where o: "rescale_loop temp (alpha rep) (nr_dimensions rep) 0 out = Inr out'"
    "length out' = length out"
    "\<forall>j<length out. out' ! j =
       (if int j < nr_dimensions rep then fmul (temp ! j) (alpha rep ! j) else out ! j)"
    by auto
  have "vectorize rep p out = Inr out'"
    using assms(1,4) o(1) by (simp add: vectorize_def)
  moreover have "out' ! i = fmul (temp ! i) (alpha rep ! i)" if "i < nat (nr_dimensions rep)" for i
    using that o(3) assms(3) by auto
  moreover have "out' ! i = out ! i" if "nat (nr_dimensions rep) \<le> i" "i < length out" for i
    using that o(3) by auto
  ultimately show ?thesis using o(2) by auto
qed



section \<open>Rescale weights\<close>

lemma setRescaleValues_Inr:
  assumes "setRescaleValues rep w = Inr rep'"
  shows "rep' = rep\<lparr>alpha := take (nat (nr_dimensions rep)) w\<rparr>"
    and "0 \<le> nr_dimensions rep" and "nr_dimensions rep \<le> int (length w)"
  using assms by (auto simp: setRescaleValues_def split: if_splits)

lemma setRescaleValues_succeeds:
  "0 \<le> nr_dimensions rep \<Longrightarrow> nr_dimensions rep \<le> int (length w) \<Longrightarrow>
   setRescaleValues rep w = Inr (rep\<lparr>alpha := take (nat (nr_dimensions rep)) w\<rparr>)"
  by (simp add: setRescaleValues_def)

lemma setRescaleValues_alpha_inv:
  "setRescaleValues rep w = Inr rep' \<Longrightarrow> alpha_inv rep'"
  by (auto simp: setRescaleValues_def alpha_inv_def split: if_splits)

lemma perform_alpha_inv:
  "alpha_inv rep \<Longrightarrow> perform rep x = Inr rep' \<Longrightarrow> alpha_inv rep'"
  by (cases x) (auto simp: setRescaleValues_alpha_inv split: sum.splits)

lemma perform_all_alpha_inv:
  "alpha_inv rep \<Longrightarrow> perform_all rep xs = Inr rep' \<Longrightarrow> alpha_inv rep'"
proof (induction xs arbitrary: rep)
  case Nil
  then show ?case by simp
next
  case (Cons x xs)
  from Cons.prems(2) obtain rep1 where r: "perform rep x = Inr rep1" "perform_all rep1 xs = Inr rep'"
    by (auto split: sum.splits)
  from perform_alpha_inv [OF Cons.prems(1) r(1)] have "alpha_inv rep1" .
  then show ?case using Cons.IH r(2) by blast
qed

text \<open>
  Claim C6. A call of \<open>setRescaleValues(weights)\<close> returns when \<open>nr_dimensions_\<close> is not
  negative and the array holds that many weights; when it returns, \<open>alpha_\<close> is the first
  \<open>nr_dimensions_\<close> entries of the array, exactly \<open>nr_dimensions_\<close> of them. The invariant
  (\<open>alpha_\<close> is not set or has \<open>nr_dimensions_\<close> entries) holds after construction and after
  every sequence of operations, repeated calls of \<open>setRescaleValues\<close> included.
\<close>

theorem setRescaleValues_invariant:
  "(0 \<le> nr_dimensions rep \<and> nr_dimensions rep \<le> int (length w) \<longrightarrow>
      (\<exists>rep'. setRescaleValues rep w = Inr rep')) \<and>
   (setRescaleValues rep w = Inr rep' \<longrightarrow>
      alpha rep' = take (nat (nr_dimensions rep')) w \<and>
      int (length (alpha rep')) = nr_dimensions rep' \<and>
      nr_dimensions rep' = nr_dimensions rep) \<and>
   (alpha_inv rep \<and> perform_all rep ops = Inr rep'' \<longrightarrow> alpha_inv rep'') \<and>
   (perform_all (DefaultPointRepresentation s) ops = Inr rep'' \<longrightarrow> alpha_inv rep'')"
proof (intro conjI impI)
  assume "0 \<le> nr_dimensions rep \<and> nr_dimensions rep \<le> int (length w)"
  then show "\<exists>rep'. setRescaleValues rep w = Inr rep'"
    by (simp add: setRescaleValues_succeeds)
next
  assume a: "setRescaleValues rep w = Inr rep'"
  note r = setRescaleValues_Inr [OF a]
  show "alpha rep' = take (nat (nr_dimensions rep')) w" using r(1) by simp
  show "int (length (alpha rep')) = nr_dimensions rep'" using r by simp
  show "nr_dimensions rep' = nr_dimensions rep" using r(1) by simp
next
  assume "alpha_inv rep \<and> perform_all rep ops = Inr rep''"
  then show "alpha_inv rep''" using perform_all_alpha_inv by blast
next
  assume "perform_all (DefaultPointRepresentation s) ops = Inr rep''"
  moreover have "alpha_inv (DefaultPointRepresentation s)"
    by (simp add: alpha_inv_def Default_fields)
  ultimately show "alpha_inv rep''" using perform_all_alpha_inv by blast
qed

theorem setRescaleValues_invariant_witness:
  "0 \<le> nr_dimensions (DefaultPointRepresentation 12) \<and>
   nr_dimensions (DefaultPointRepresentation 12) \<le> int (length [float_one, qNaN, float_one, float_one]) \<and>
   setRescaleValues (DefaultPointRepresentation 12) [float_one, qNaN, float_one, float_one]
     = Inr ((DefaultPointRepresentation 12)\<lparr>alpha := [float_one, qNaN, float_one]\<rparr>) \<and>
   alpha_inv (DefaultPointRepresentation 12) \<and>
   perform_all (DefaultPointRepresentation 12)
     [SetRescaleValues [float_one, qNaN, float_one, float_one], IsTrivial, SetRescaleValues [float_one, float_one, float_one] ]
     = Inr ((DefaultPointRepresentation 12)\<lparr>alpha := [float_one, float_one, float_one]\<rparr>) \<and>
   alpha_inv ((DefaultPointRepresentation 12)\<lparr>alpha := [float_one, float_one, float_one]\<rparr>)"
proof -
  let ?rep = "DefaultPointRepresentation 12"
  let ?w = "[float_one, qNaN, float_one, float_one]"
  let ?ops = "[SetRescaleValues ?w, IsTrivial, SetRescaleValues [float_one, float_one, float_one] ]"
  have 1: "0 \<le> nr_dimensions ?rep \<and> nr_dimensions ?rep \<le> int (length ?w)"
    by simp
  have 2: "setRescaleValues ?rep ?w = Inr (?rep\<lparr>alpha := [float_one, qNaN, float_one]\<rparr>)"
    by (simp add: setRescaleValues_def)
  have 3: "alpha_inv ?rep"
    by (simp add: alpha_inv_def Default_fields)
  have 4: "perform_all ?rep ?ops = Inr (?rep\<lparr>alpha := [float_one, float_one, float_one]\<rparr>)"
    by (simp add: setRescaleValues_def)
  from setRescaleValues_invariant [of ?rep ?w "?rep\<lparr>alpha := [float_one, qNaN, float_one]\<rparr>" ?ops
      "?rep\<lparr>alpha := [float_one, float_one, float_one]\<rparr>" 12] 1 2 3 4
  show ?thesis by blast
qed

section \<open>Validity does not depend on the rescale weights\<close>

lemma copy_to_scratch_alpha_update:
  "copy_to_scratch (rep\<lparr>alpha := a\<rparr>) p = copy_to_scratch rep p"
  by (auto simp: copy_to_scratch_def split: sum.splits)

lemma isValid_alpha_update: "isValid (rep\<lparr>alpha := a\<rparr>) p = isValid rep p"
  by (simp add: isValid_def isValid_fast_def isValid_full_def copy_to_scratch_alpha_update
        cong: sum.case_cong)

text \<open>
  Claim C10. For every point \<open>p\<close> and every weight array \<open>w\<close>, \<open>isValid(p)\<close> after
  \<open>setRescaleValues(w)\<close> is \<open>isValid(p)\<close> before it: the call leaves the trivial flag, the
  dimension and the conversion as they are, and \<open>isValid\<close> reads nothing else.
\<close>

theorem isValid_independent_of_rescale:
  assumes "setRescaleValues rep w = Inr rep'"
  shows "isValid rep' p = isValid rep p \<and> trivial rep' = trivial rep \<and>
         produced_floats rep' p = produced_floats rep p"
proof -
  from setRescaleValues_Inr(1) [OF assms]
  have r: "rep' = rep\<lparr>alpha := take (nat (nr_dimensions rep)) w\<rparr>" .
  show ?thesis
    unfolding r by (simp add: isValid_alpha_update produced_floats_def copy_to_scratch_alpha_update)
qed

theorem isValid_independent_of_rescale_witness:
  "setRescaleValues (DefaultPointRepresentation 12) [qNaN, float_one, float_one]
     = Inr ((DefaultPointRepresentation 12)\<lparr>alpha := [qNaN, float_one, float_one]\<rparr>) \<and>
   isValid ((DefaultPointRepresentation 12)\<lparr>alpha := [qNaN, float_one, float_one]\<rparr>) [float_one, float_one, float_one] = Inr True \<and>
   isValid (DefaultPointRepresentation 12) [float_one, float_one, float_one] = Inr True"
proof -
  let ?rep = "DefaultPointRepresentation 12"
  have 1: "setRescaleValues ?rep [qNaN, float_one, float_one] = Inr (?rep\<lparr>alpha := [qNaN, float_one, float_one]\<rparr>)"
    by (simp add: setRescaleValues_def)
  have 2: "isValid ?rep [float_one, float_one, float_one] = Inr True"
    by (simp add: isValid_def isValid_fast_def Default_fields(1) isValid_loop.simps
          isfinite_def float_one_def)
  from isValid_independent_of_rescale [OF 1, of "[float_one, float_one, float_one]"] 1 2
  show ?thesis by simp
qed

section \<open>Construction of the default representation\<close>

lemma copy_loop_nothing: "n \<le> 0 \<Longrightarrow> copy_loop temp n 0 out = Inr out"
  by (subst copy_loop.simps) simp

text \<open>
  Claim C5. The constructor of \<open>DefaultPointRepresentation<P>\<close> marks the representation
  trivial and sets \<open>nr_dimensions_\<close> to \<open>sizeof(P) / sizeof(float)\<close> (converted to \<open>int\<close>),
  lowered to 3 when it is larger: the number of whole floats in \<open>P\<close>, at most 3, for every
  point type whose float count an \<open>int\<close> holds. For a point type smaller than one float
  the dimension is 0; the constructor raises nothing (it has no failing branch), and the
  representation converts every point to the empty vector.
\<close>

theorem DefaultPointRepresentation_construction:
  "trivial (DefaultPointRepresentation s) \<and>
   alpha (DefaultPointRepresentation s) = [] \<and>
   nr_dimensions (DefaultPointRepresentation s) = min 3 (size_to_int (s div sizeof_float)) \<and>
   nr_dimensions (DefaultPointRepresentation s) \<le> 3 \<and>
   (s div sizeof_float < 2 ^ 31 \<longrightarrow>
      nr_dimensions (DefaultPointRepresentation s) = min 3 (int (s div sizeof_float))) \<and>
   (s < sizeof_float \<longrightarrow>
      nr_dimensions (DefaultPointRepresentation s) = 0 \<and>
      copy_to_scratch (DefaultPointRepresentation s) p = Inr [] \<and>
      vectorize (DefaultPointRepresentation s) p out = Inr out)"
proof (intro conjI impI)
  assume small: "s < sizeof_float"
  then have "s div sizeof_float = 0" by simp
  then show n: "nr_dimensions (DefaultPointRepresentation s) = 0"
    by (simp add: Default_fields size_to_int_def)
  show c: "copy_to_scratch (DefaultPointRepresentation s) p = Inr []"
    by (simp add: copy_to_scratch_def n Default_fields(3) Default_copyToFloatArray_def)
  show "vectorize (DefaultPointRepresentation s) p out = Inr out"
    by (simp add: vectorize_def c Default_fields(2) n copy_loop_nothing)
qed (simp_all add: Default_fields size_to_int_small)

theorem DefaultPointRepresentation_construction_witness:
  "(20::nat) div sizeof_float < 2 ^ 31 \<and>
   nr_dimensions (DefaultPointRepresentation 20) = 3 \<and>
   nr_dimensions (DefaultPointRepresentation 8) = 2 \<and>
   trivial (DefaultPointRepresentation 8) \<and>
   (2::nat) < sizeof_float \<and>
   nr_dimensions (DefaultPointRepresentation 2) = 0 \<and>
   vectorize (DefaultPointRepresentation 2) [] [float_one] = Inr [float_one]"
  using DefaultPointRepresentation_construction [of 20 "[]" "[]"]
    DefaultPointRepresentation_construction [of 8 "[]" "[]"]
    DefaultPointRepresentation_construction [of 2 "[]" "[float_one]"]
  by (simp add: sizeof_float_def)

section \<open>Triviality and rescale weights\<close>

lemma isTrivial_iff: "isTrivial rep \<longleftrightarrow> trivial rep \<and> alpha rep = []"
  by (simp add: isTrivial_def)

lemma setRescaleValues_not_trivial:
  assumes "0 < nr_dimensions rep" and "setRescaleValues rep w = Inr rep'"
  shows "\<not> isTrivial rep'"
proof -
  note r = setRescaleValues_Inr [OF assms(2)]
  from r assms(1) have "length (alpha rep') = nat (nr_dimensions rep)" by simp
  with assms(1) have "alpha rep' \<noteq> []" by auto
  then show ?thesis by (simp add: isTrivial_def)
qed

text \<open>
  Claim C2. \<open>isTrivial()\<close> is the trivial flag together with an empty \<open>alpha_\<close>. A call of
  \<open>setRescaleValues\<close> on a representation of dimension 0 resizes \<open>alpha_\<close> to no entries, so
  for the default representation of a point type smaller than a float \<open>isTrivial()\<close> is
  still true after the call.
\<close>

theorem isTrivial_after_setRescaleValues_dim0:
  "\<exists>rep'. setRescaleValues (DefaultPointRepresentation 1) [float_one, float_one, float_one] = Inr rep' \<and>
          trivial rep' \<and> nr_dimensions rep' = 0 \<and> alpha rep' = [] \<and> isTrivial rep'"
  by (simp add: setRescaleValues_def isTrivial_def Default_fields sizeof_float_def size_to_int_def)

section \<open>Multiplication by one\<close>

lemma bit_length_0 [simp]: "bit_length 0 = 0"
  by (simp add: bit_length.simps)

lemma bit_length_pos: "0 < n \<Longrightarrow> bit_length n = Suc (bit_length (n div 2))"
  by (subst bit_length.simps) simp

lemma bit_length_double: "0 < n \<Longrightarrow> bit_length (2 * n) = Suc (bit_length n)"
  by (simp add: bit_length_pos)

lemma bit_length_mult_pow2: "0 < m \<Longrightarrow> bit_length (m * 2 ^ k) = bit_length m + k"
proof (induction k)
  case 0
  then show ?case by simp
next
  case (Suc k)
  have "m * 2 ^ Suc k = 2 * (m * 2 ^ k)" by simp
  moreover have "0 < m * 2 ^ k" using Suc.prems by simp
  ultimately show ?case using Suc by (simp only: bit_length_double)
qed

lemma bit_length_le: "n < 2 ^ k \<Longrightarrow> bit_length n \<le> k"
proof (induction k arbitrary: n)
  case 0
  then show ?case by simp
next
  case (Suc k)
  show ?case
  proof (cases "n = 0")
    case True
    then show ?thesis by simp
  next
    case False
    from Suc.prems have "n div 2 < 2 ^ k" by auto
    then have "bit_length (n div 2) \<le> k" by (rule Suc.IH)
    with False show ?thesis by (simp add: bit_length_pos)
  qed
qed

lemma bit_length_gt: "2 ^ k \<le> n \<Longrightarrow> k < bit_length n"
proof (induction k arbitrary: n)
  case 0
  then show ?case by (simp add: bit_length_pos)
next
  case (Suc k)
  from Suc.prems have pos: "0 < n"
    by (metis not_gr_zero power_eq_0_iff zero_neq_numeral le_zero_eq)
  from Suc.prems have "2 ^ k \<le> n div 2" by auto
  then have "k < bit_length (n div 2)" by (rule Suc.IH)
  with pos show ?case by (simp add: bit_length_pos)
qed

lemma bit_length_eq: "2 ^ k \<le> n \<Longrightarrow> n < 2 ^ Suc k \<Longrightarrow> bit_length n = Suc k"
  using bit_length_le [of n "Suc k"] bit_length_gt [of k n] by simp

lemma round_shift_exact: "round_shift (m * 2 ^ k) k = m"
  by (simp add: round_shift_def)

lemma frac_bound: "unat (frac x) < 2 ^ 23"
  using unsigned_less [of "frac x"] by simp

lemma expo_bound: "unat (expo x) < 256"
  using unsigned_less [of "expo x"] by simp

lemma expo_finite_bound:
  assumes "isfinite x"
  shows "unat (expo x) \<le> 254"
proof -
  have "unat (expo x) \<noteq> 255"
  proof
    assume "unat (expo x) = 255"
    then have "word_of_nat (unat (expo x)) = (255 :: 8 word)" by simp
    then have "expo x = 255" by simp
    with assms show False by (simp add: isfinite_def)
  qed
  with expo_bound [of x] show ?thesis by simp
qed

lemma expo_finite_uint: "isfinite x \<Longrightarrow> uint (expo x) \<le> 254"
  using expo_finite_bound [of x] unfolding uint_nat by linarith

lemma expo_nonzero_uint: "expo x \<noteq> 0 \<Longrightarrow> 1 \<le> uint (expo x)"
  using unat_gt_0 [of "expo x"] unfolding uint_nat by linarith

lemma significand_bound: "significand x < 2 ^ 24"
  using frac_bound [of x] by (simp add: significand_def)


lemma fround_unfold:
  assumes "m \<noteq> 0"
    and "max (- 149) (e + int (bit_length m) - 24) = e'"
    and "(if e' \<le> e then m * 2 ^ nat (e - e') else round_shift m (nat (e' - e))) = m'"
    and "m' < 2 ^ 24" and "e' \<le> 104"
  shows "fround s m e =
           (if m' < 2 ^ 23 then Float s 0 (of_nat m')
            else Float s (of_int (e' + 150)) (of_nat (m' - 2 ^ 23)))"
proof -
  have "fround s m e =
      (let e' = max (- 149) (e + int (bit_length m) - 24);
            m' = (if e' \<le> e then m * 2 ^ nat (e - e') else round_shift m (nat (e' - e)));
            e'' = (if m' = 2 ^ 24 then e' + 1 else e');
            m'' = (if m' = 2 ^ 24 then 2 ^ 23 else m')
        in if 104 < e'' then Float s 255 0
           else if m'' < 2 ^ 23 then Float s 0 (of_nat m'')
           else Float s (of_int (e'' + 150)) (of_nat (m'' - 2 ^ 23)))"
    using assms(1) by (simp only: fround_def if_False)
  also have "\<dots> = (if m' < 2 ^ 23 then Float s 0 (of_nat m')
            else Float s (of_int (e' + 150)) (of_nat (m' - 2 ^ 23)))"
    unfolding Let_def assms(2) assms(3) using assms(4,5) by simp
  finally show ?thesis .
qed

lemma fround_exact:
  assumes "isfinite x"
  shows "fround (sign x) (significand x * 2 ^ k) (exponent2 x - int k) = x"
proof (cases "significand x = 0")
  case True
  then have "expo x = 0" "frac x = 0"
    by (auto simp: significand_def unsigned_eq_0_iff split: if_splits)
  then have "x = Float (sign x) 0 0"
    by (cases x) simp
  with True show ?thesis by (simp add: fround_def)
next
  case False
  let ?m = "significand x"
  let ?e = "exponent2 x"
  have m24: "?m < 2 ^ 24" by (rule significand_bound)
  have nz: "?m * 2 ^ k \<noteq> 0" using False by simp
  have bl: "bit_length (?m * 2 ^ k) = bit_length ?m + k"
    using False by (simp add: bit_length_mult_pow2)
  have e': "max (- 149) (?e - int k + int (bit_length (?m * 2 ^ k)) - 24) = ?e"
  proof (cases "expo x = 0")
    case True
    then have "?m < 2 ^ 23" using frac_bound [of x] by (simp add: significand_def)
    then have "bit_length ?m \<le> 23" by (rule bit_length_le)
    with True show ?thesis by (simp add: bl exponent2_def)
  next
    case nz: False
    then have "2 ^ 23 \<le> ?m" by (simp add: significand_def)
    with m24 have "bit_length ?m = 24"
      using bit_length_eq [of 23 ?m] by simp
    then show ?thesis
      using expo_nonzero_uint [OF nz] by (simp add: bl exponent2_def nz)
  qed
  have m': "(if ?e \<le> ?e - int k then ?m * 2 ^ k * 2 ^ nat (?e - int k - ?e)
             else round_shift (?m * 2 ^ k) (nat (?e - (?e - int k)))) = ?m"
    by (cases "k = 0") (simp_all add: round_shift_exact)
  have e104: "?e \<le> 104"
    using expo_finite_uint [OF assms] by (simp add: exponent2_def)
  note unfold = fround_unfold [of "?m * 2 ^ k" "?e - int k" ?e ?m "sign x", OF nz e' m' m24 e104]
  show ?thesis
  proof (cases "expo x = 0")
    case True
    then have "?m < 2 ^ 23" "of_nat ?m = frac x"
      using frac_bound [of x] by (simp_all add: significand_def)
    moreover from True have "x = Float (sign x) 0 (frac x)"
      by (cases x) simp
    ultimately show ?thesis
      unfolding unfold by simp
  next
    case nz: False
    then have "\<not> ?m < 2 ^ 23" "(of_nat (?m - 2 ^ 23) :: 23 word) = frac x"
      by (simp_all add: significand_def)
    moreover from nz have "(of_int (?e + 150) :: 8 word) = expo x"
      by (simp add: exponent2_def)
    moreover have "x = Float (sign x) (expo x) (frac x)"
      by (cases x) simp
    ultimately show ?thesis
      unfolding unfold by simp
  qed
qed

lemma fmul_one:
  assumes "\<not> isnan x"
  shows "fmul x float_one = x"
proof (cases "isinf x")
  case True
  then have "x = Float (sign x) 255 0"
    by (cases x) (simp add: isinf_def)
  with True show ?thesis
    by (auto simp: fmul_def isnan_def isinf_def is_zero_def float_one_def)
next
  case False
  with assms have fin: "isfinite x"
    by (auto simp: isnan_def isinf_def isfinite_def)
  have "fmul x float_one = fround (sign x) (significand x * 2 ^ 23) (exponent2 x - int 23)"
    using assms False
    by (simp add: fmul_def isnan_def isinf_def float_one_def significand_def exponent2_def)
  then show ?thesis
    using fround_exact [OF fin, of 23] by simp
qed

lemma fmul_one_nan: "isnan x \<Longrightarrow> isnan (fmul x float_one)"
  by (simp add: fmul_def qNaN_def isnan_def)

lemma fmul_one_same: "same_float (fmul x float_one) x"
  using fmul_one [of x] fmul_one_nan [of x] by (auto simp: same_float_def)

section \<open>The order of the keys is the order of the values\<close>













section \<open>The dataset of a built index\<close>






section \<open>The nearest-neighbour query\<close>










text \<open>
  Claim C9. \<open>setInputCloud\<close> on an empty cloud fails with \<open>InvalidInputError\<close> whatever the
  representation, and so it does on any cloud when the representation has
  \<open>nr_dimensions\<close> 0; neither call leads to a built index.
\<close>

theorem setInputCloud_invalid_input:
  "setInputCloud [] rep = Inl InvalidInputError \<and>
   (nr_dimensions rep = 0 \<longrightarrow> setInputCloud cloud rep = Inl InvalidInputError)"
  by (simp add: setInputCloud_def)




theorem setInputCloud_invalid_input_witness:
  "nr_dimensions (DefaultPointRepresentation 1) = 0 \<and>
   setInputCloud [ [float_one] ] (DefaultPointRepresentation 1) = Inl InvalidInputError \<and>
   setInputCloud [] (DefaultPointRepresentation 12) = Inl InvalidInputError"
proof -
  have "nr_dimensions (DefaultPointRepresentation 1) = 0"
    by (simp add: Default_fields sizeof_float_def size_to_int_def)
  with setInputCloud_invalid_input [of "DefaultPointRepresentation 1" "[ [float_one] ]"]
    setInputCloud_invalid_input [of "DefaultPointRepresentation 12" "[]"]
  show ?thesis by simp
qed

lemma Default_8 [simp]: "nr_dimensions (DefaultPointRepresentation 8) = 2"
  by (simp add: Default_fields sizeof_float_def size_to_int_def)



section \<open>Rescale weights that are all one\<close>

lemma vectorize_all_ones:
  assumes "copy_to_scratch rep p = Inr temp"
    and "int (length temp) = nr_dimensions rep"
    and "nr_dimensions rep \<le> int (length out)"
    and "alpha rep = []"
    and "setRescaleValues rep w = Inr rep'"
    and "\<forall>i<nat (nr_dimensions rep). w ! i = float_one"
  shows "\<exists>plain scaled.
           vectorize rep p out = Inr plain \<and> vectorize rep' p out = Inr scaled \<and>
           list_all2 same_float scaled plain \<and>
           ((\<forall>i<nat (nr_dimensions rep). \<not> isnan (temp ! i)) \<longrightarrow> scaled = plain)"
proof -
  let ?n = "nr_dimensions rep"
  note r = setRescaleValues_Inr [OF assms(5)]
  have inv: "alpha_inv rep" "alpha_inv rep'"
    using assms(4) setRescaleValues_alpha_inv [OF assms(5)] by (simp_all add: alpha_inv_def)
  have n': "nr_dimensions rep' = ?n" and al: "alpha rep' = take (nat ?n) w"
    using r(1) by simp_all
  have c': "copy_to_scratch rep' p = Inr temp"
    using assms(1) by (simp add: r(1) copy_to_scratch_alpha_update)
  from vectorize_unweighted [OF assms(1,2,3,4)]
  obtain plain where p: "vectorize rep p out = Inr plain" "length plain = length out"
    "\<forall>i<nat ?n. plain ! i = temp ! i"
    "\<forall>i. nat ?n \<le> i \<and> i < length out \<longrightarrow> plain ! i = out ! i"
    by blast
  have "\<exists>scaled. vectorize rep' p out = Inr scaled \<and> length scaled = length out \<and>
      (\<forall>i<nat ?n. scaled ! i = (if alpha rep' = [] then temp ! i
                                  else fmul (temp ! i) (alpha rep' ! i))) \<and>
      (\<forall>i. nat ?n \<le> i \<and> i < length out \<longrightarrow> scaled ! i = out ! i)"
  proof (cases "alpha rep' = []")
    case True
    from vectorize_unweighted [of rep' p temp out] c' assms(2,3) n' True
    show ?thesis by simp
  next
    case False
    with inv(2) have "int (length (alpha rep')) = nr_dimensions rep'"
      by (simp add: alpha_inv_def)
    from vectorize_weighted [of rep' p temp out, OF c' _ _ False this] assms(2,3) n' False
    show ?thesis by simp
  qed
  then obtain scaled where s: "vectorize rep' p out = Inr scaled" "length scaled = length out"
    "\<forall>i<nat ?n. scaled ! i = (if alpha rep' = [] then temp ! i
                                  else fmul (temp ! i) (alpha rep' ! i))"
    "\<forall>i. nat ?n \<le> i \<and> i < length out \<longrightarrow> scaled ! i = out ! i"
    by blast
  have w1: "alpha rep' ! i = float_one" if "i < nat ?n" for i
    using that assms(6) r(3) by (simp add: al)
  have same: "same_float (scaled ! i) (plain ! i)" if "i < length out" for i
  proof (cases "i < nat ?n")
    case True
    then show ?thesis
      using s(3) p(3) w1 fmul_one_same [of "temp ! i"] by (auto simp: same_float_def)
  next
    case False
    then show ?thesis
      using s(4) p(4) that by (simp add: same_float_def)
  qed
  have eq: "scaled = plain" if nn: "\<forall>i<nat ?n. \<not> isnan (temp ! i)"
  proof (rule nth_equalityI)
    show "length scaled = length plain" using s(2) p(2) by simp
    fix i assume "i < length scaled"
    then have i: "i < length out" using s(2) by simp
    show "scaled ! i = plain ! i"
    proof (cases "i < nat ?n")
      case True
      with nn have "fmul (temp ! i) float_one = temp ! i" by (simp add: fmul_one)
      with True show ?thesis using s(3) p(3) w1 by auto
    next
      case False
      then show ?thesis using s(4) p(4) i by simp
    qed
  qed
  from same have "list_all2 same_float scaled plain"
    by (simp add: list_all2_conv_all_nth s(2) p(2))
  with p(1) s(1) eq show ?thesis by blast
qed

lemma vectorize_all_ones_example:
  "vectorize (DefaultPointRepresentation 8) [Float True 129 5, qNaN] [float_zero, float_zero]
     = Inr [Float True 129 5, qNaN] \<and>
   vectorize ((DefaultPointRepresentation 8)\<lparr>alpha := [float_one, float_one]\<rparr>)
       [Float True 129 5, qNaN] [float_zero, float_zero]
     = Inr [Float True 129 5, qNaN]"
proof -
  have "fmul (Float True 129 5) float_one = Float True 129 5"
    by (rule fmul_one) (simp add: isnan_def)
  moreover have "fmul qNaN float_one = qNaN"
    by (simp add: fmul_def isnan_def qNaN_def)
  ultimately show ?thesis
    by (simp add: vectorize_def copy_to_scratch_def DefaultPointRepresentation_def
        sizeof_float_def size_to_int_def Default_copyToFloatArray_def
        copy_loop.simps rescale_loop.simps)
qed

text \<open>
  Claim C7. With weights that are all \<open>1.0\<close>, \<open>vectorize\<close> writes what it writes without
  weights (lemma \<open>vectorize_all_ones\<close>). For a representation of dimension 0, as the default
  one of a point type smaller than a float, \<open>setRescaleValues\<close> leaves \<open>alpha_\<close> empty:
  \<open>isTrivial()\<close> is true before the call and still true after it.
\<close>

theorem isTrivial_after_all_ones_dim0:
  "isTrivial (DefaultPointRepresentation 2) \<and>
   (\<exists>rep'. setRescaleValues (DefaultPointRepresentation 2) [float_one, float_one] = Inr rep' \<and>
           isTrivial rep' \<and>
           vectorize rep' [] [float_zero] = vectorize (DefaultPointRepresentation 2) [] [float_zero])"
  by (simp add: setRescaleValues_def isTrivial_def DefaultPointRepresentation_def
      sizeof_float_def size_to_int_def)

end
